theory Spec2Isabelle
  imports Main "HOL-Library.AList"
begin

section \<open>Runtime values of the test-fixture helper module\<close>

text \<open>
  The serializer \<^verbatim>\<open>toJSON\<close> of \<^verbatim>\<open>shared-runtime.ts\<close> walks an arbitrary JavaScript
  value with \<^verbatim>\<open>JSON.stringify\<close> and a replacer callback. Object identity matters (the
  replacer keys its \<^verbatim>\<open>seen\<close> map by reference), so composite values live in a store and
  are referred to by address.

  The values are those of the specification: the primitives \<^verbatim>\<open>undefined\<close>,
  \<^verbatim>\<open>null\<close>, booleans, numbers and strings, and references to plain objects, arrays,
  Maps, Sets and functions (no BigInt or Symbol, no boxed primitive, Date, proxy or
  accessor property). Numbers are the integers of magnitude below \<open>2 ^ 53\<close>, which
  are doubles and which \<^verbatim>\<open>Number::toString\<close> writes digit by digit, and the three
  non-finite ones; strings are lists of 8-bit code units. A plain object lists its
  enumerable own properties, a Map its entries and a Set its elements, in the order of
  enumeration.
\<close>

type_synonym addr = nat

typedef whole = "{i :: int. \<bar>i\<bar> < 2 ^ 53}"
  by (rule exI [of _ 0]) simp

datatype jsnum = Whole whole | NaN | PosInfinity | NegInfinity

datatype jsval =
    JUndefined
  | JNull
  | JBool bool
  | JNum jsnum
  | JStr string
  | JRef addr

text \<open>The number \<open>i\<close> as a value, for \<open>i\<close> of magnitude below \<open>2 ^ 53\<close>.\<close>

definition number :: "int \<Rightarrow> jsval" where
  "number i = JNum (Whole (Abs_whole i))"

text \<open>
  Nothing in the store refers to an object that was just built. A value in transit is
  therefore a value of the store or a fresh tree of plain objects and arrays over such
  values: the replacer hands \<^verbatim>\<open>{kind: "Map", value: Array.from(val.entries())}\<close> back
  to \<^verbatim>\<open>JSON.stringify\<close>, and a function may return \<^verbatim>\<open>[1, {}]\<close> or
  \<^verbatim>\<open>{toJSON: g}\<close> for a function \<^verbatim>\<open>g\<close> of the store. What a function of this
  development returns is thus a primitive, an object of the store, or such a tree: not a
  new function, Map or Set, and no structure in which one new object occurs twice.
\<close>

datatype tval =
    Held jsval
  | FreshObject "(string \<times> tval) list"
  | FreshArray "tval list"

text \<open>
  A function value carries its declared parameter count (\<^verbatim>\<open>val.length\<close>) and what a
  call does: it reads and changes some world outside the value graph, and completes
  normally with a value or abruptly with a thrown value. Arguments and \<^verbatim>\<open>this\<close> play no
  part in it.
\<close>

datatype completion = Normal tval | Abrupt tval

datatype 'w jsobject =
    PlainObject "(string \<times> jsval) list"
  | ArrayObject "jsval list"
  | MapObject "(jsval \<times> jsval) list"
  | SetObject "jsval list"
  | FunctionObject nat "'w \<Rightarrow> completion \<times> 'w"

type_synonym 'w heap = "'w jsobject list"

text \<open>
  An address past the end of the store denotes an object without properties, so that
  every reference resolves.
\<close>

definition deref :: "'w heap \<Rightarrow> addr \<Rightarrow> 'w jsobject" where
  "deref h a = (if a < length h then h ! a else PlainObject [])"

section \<open>Text of primitives\<close>

function decimal :: "nat \<Rightarrow> string" where
  "decimal n =
     (if n < 10 then [''0123456789'' ! n]
      else decimal (n div 10) @ [''0123456789'' ! (n mod 10)])"
  by pat_completeness auto
termination
  by (relation "measure (\<lambda>n. n)") auto

declare decimal.simps [simp del]

text \<open>\<^verbatim>\<open>Number::toString\<close> on an integer of magnitude below \<open>2 ^ 53\<close>: all its
  digits, without exponent.\<close>

definition NumberToString :: "whole \<Rightarrow> string" where
  "NumberToString x =
     (let i = Rep_whole x in if i < 0 then ''-'' @ decimal (nat (- i)) else decimal (nat i))"

definition hex_digit :: "nat \<Rightarrow> char" where
  "hex_digit n = ''0123456789abcdef'' ! (n mod 16)"

definition escape_unit :: "char \<Rightarrow> string" where
  "escape_unit c =
     (let n = (of_char c :: nat) in
      if n = 8 then [CHR 0x5C, CHR ''b'']
      else if n = 9 then [CHR 0x5C, CHR ''t'']
      else if n = 10 then [CHR 0x5C, CHR ''n'']
      else if n = 12 then [CHR 0x5C, CHR ''f'']
      else if n = 13 then [CHR 0x5C, CHR ''r'']
      else if n = 34 then [CHR 0x5C, CHR 0x22]
      else if n = 92 then [CHR 0x5C, CHR 0x5C]
      else if n < 32 then [CHR 0x5C, CHR ''u'', CHR ''0'', CHR ''0'', hex_digit (n div 16), hex_digit n]
      else [c])"

definition QuoteJSONString :: "string \<Rightarrow> string" where
  "QuoteJSONString s = [CHR 0x22] @ concat (map escape_unit s) @ [CHR 0x22]"

fun join :: "string \<Rightarrow> string list \<Rightarrow> string" where
  "join sep [] = []"
| "join sep [x] = x"
| "join sep (x # y # ys) = x @ sep @ join sep (y # ys)"

definition object_text :: "string list \<Rightarrow> string" where
  "object_text partial = ''{'' @ join '','' partial @ ''}''"

definition array_text :: "string list \<Rightarrow> string" where
  "array_text partial = ''['' @ join '','' partial @ '']''"

section \<open>The visited registry\<close>

text \<open>
  \<^verbatim>\<open>const seen = new Map()\<close>: keys are compared by identity. The key of a value of the
  store is \<^verbatim>\<open>null\<close> or an address; a fresh array gets a key of its own, numbered by
  the size of the map when it is recorded.
\<close>

datatype ident = NullId | ObjId addr | FreshId nat

type_synonym registry = "(ident \<times> nat) list"

record 'w state =
  seen :: registry
  world :: 'w

fun seen_get :: "registry \<Rightarrow> tval \<Rightarrow> nat option" where
  "seen_get s (Held JNull) = map_of s NullId"
| "seen_get s (Held (JRef a)) = map_of s (ObjId a)"
| "seen_get s _ = None"

fun seen_set :: "registry \<Rightarrow> tval \<Rightarrow> nat \<Rightarrow> registry" where
  "seen_set s (Held JNull) v = AList.update NullId v s"
| "seen_set s (Held (JRef a)) v = AList.update (ObjId a) v s"
| "seen_set s _ v = AList.update (FreshId (length s)) v s"

definition seen_size :: "registry \<Rightarrow> nat" where
  "seen_size s = length s"

section \<open>The replacer callback\<close>

datatype error = InvocationFailure tval | CircularStructure

datatype ('a, 'w) res =
    Done 'a "'w state"
  | Failed error 'w
  | OutOfFuel

datatype objclass = MapInstance "(jsval \<times> jsval) list" | SetInstance "jsval list" | OtherObject

datatype 'w jstype =
    TypeofFunction nat "'w \<Rightarrow> completion \<times> 'w"
  | TypeofObject objclass
  | TypeofOther

text \<open>\<^verbatim>\<open>typeof val\<close>, with \<^verbatim>\<open>val.length\<close> and \<^verbatim>\<open>val instanceof Map/Set\<close>.
  \<^verbatim>\<open>typeof null\<close> is \<^verbatim>\<open>"object"\<close>.\<close>

fun typeof :: "'w heap \<Rightarrow> tval \<Rightarrow> 'w jstype" where
  "typeof h (Held (JRef a)) =
     (case deref h a of
        FunctionObject n call \<Rightarrow> TypeofFunction n call
      | MapObject entries \<Rightarrow> TypeofObject (MapInstance entries)
      | SetObject elems \<Rightarrow> TypeofObject (SetInstance elems)
      | _ \<Rightarrow> TypeofObject OtherObject)"
| "typeof h (Held JNull) = TypeofObject OtherObject"
| "typeof h (Held _) = TypeofOther"
| "typeof h _ = TypeofObject OtherObject"

definition function_placeholder :: "nat \<Rightarrow> string" where
  "function_placeholder n = ''[[ function params='' @ decimal n @ '' ]]''"

definition cyclic_marker :: "nat \<Rightarrow> string" where
  "cyclic_marker n = ''[[ cyclic ref *'' @ decimal n @ '' ]]''"

definition replacer :: "'w heap \<Rightarrow> bool \<Rightarrow> tval \<Rightarrow> 'w state \<Rightarrow> (tval, 'w) res" where
  "replacer h invokeFns val st =
     (case typeof h val of
        TypeofFunction len call \<Rightarrow>
          if len = 0 \<and> invokeFns then
            (case call (world st) of
               (Normal result, w') \<Rightarrow>
                 Done (FreshObject [(''kind'', Held (JStr ''Function'')), (''result'', result)])
                      (st\<lparr>world := w'\<rparr>)
             | (Abrupt e, w') \<Rightarrow> Failed (InvocationFailure e) w')
          else Done (Held (JStr (function_placeholder len))) st
      | TypeofObject inst \<Rightarrow>
          (case seen_get (seen st) val of
             Some known \<Rightarrow> Done (Held (JStr (cyclic_marker known))) st
           | None \<Rightarrow>
               (case inst of
                  MapInstance entries \<Rightarrow>
                    Done (FreshObject
                           [(''kind'', Held (JStr ''Map'')),
                            (''value'', FreshArray (map (\<lambda>(k, v). FreshArray [Held k, Held v]) entries))])
                         st
                | SetInstance elems \<Rightarrow>
                    Done (FreshObject
                           [(''kind'', Held (JStr ''Set'')),
                            (''value'', FreshArray (map Held elems))])
                         st
                | OtherObject \<Rightarrow>
                    Done val (st\<lparr>seen := seen_set (seen st) val (seen_size (seen st))\<rparr>)))
      | TypeofOther \<Rightarrow> Done val st)"

section \<open>JSON.stringify\<close>

text \<open>
  Step 2 of \<^verbatim>\<open>SerializeJSONProperty\<close>: an object whose \<^verbatim>\<open>toJSON\<close> property is callable
  is replaced by the result of calling it. The object is one of the store or one that a
  function has just returned. \<open>toJSON_property\<close> is \<^verbatim>\<open>Get(value, "toJSON")\<close>,
  \<open>toJSON_method\<close> the address of the function when the property is callable, and
  \<open>GetV_toJSON\<close> what a call of it does.
\<close>

fun toJSON_property :: "'w heap \<Rightarrow> tval \<Rightarrow> tval option" where
  "toJSON_property h (Held (JRef a)) =
     (case deref h a of
        PlainObject props \<Rightarrow> map_option Held (map_of props ''toJSON'')
      | _ \<Rightarrow> None)"
| "toJSON_property h (FreshObject props) = map_of props ''toJSON''"
| "toJSON_property h _ = None"

definition toJSON_method :: "'w heap \<Rightarrow> tval \<Rightarrow> addr option" where
  "toJSON_method h val =
     (case toJSON_property h val of
        Some (Held (JRef f)) \<Rightarrow>
          (case deref h f of FunctionObject len call \<Rightarrow> Some f | _ \<Rightarrow> None)
      | _ \<Rightarrow> None)"

definition GetV_toJSON :: "'w heap \<Rightarrow> tval \<Rightarrow> ('w \<Rightarrow> completion \<times> 'w) option" where
  "GetV_toJSON h val =
     (case toJSON_method h val of
        Some f \<Rightarrow> (case deref h f of FunctionObject len call \<Rightarrow> Some call | _ \<Rightarrow> None)
      | None \<Rightarrow> None)"

definition call_toJSON :: "'w heap \<Rightarrow> tval \<Rightarrow> 'w state \<Rightarrow> (tval, 'w) res" where
  "call_toJSON h val st =
     (case GetV_toJSON h val of
        None \<Rightarrow> Done val st
      | Some call \<Rightarrow>
          (case call (world st) of
             (Normal result, w') \<Rightarrow> Done result (st\<lparr>world := w'\<rparr>)
           | (Abrupt e, w') \<Rightarrow> Failed (InvocationFailure e) w'))"

datatype shape = ObjectShape | ArrayShape

datatype slot = Property string tval | Element tval

datatype step =
    Primitive "string option"
  | Circular
  | Nested shape "addr list" "slot list"

fun slot_value :: "slot \<Rightarrow> tval" where
  "slot_value (Property P val) = val"
| "slot_value (Element val) = val"

text \<open>An object leaves out a property without text; an array writes \<^verbatim>\<open>null\<close> for it.\<close>

fun slot_text :: "slot \<Rightarrow> string option \<Rightarrow> string list" where
  "slot_text (Property P val) None = []"
| "slot_text (Property P val) (Some strP) = [QuoteJSONString P @ '':'' @ strP]"
| "slot_text (Element val) None = [''null'']"
| "slot_text (Element val) (Some strP) = [strP]"

fun shape_text :: "shape \<Rightarrow> string list \<Rightarrow> string" where
  "shape_text ObjectShape partial = object_text partial"
| "shape_text ArrayShape partial = array_text partial"

fun prepend :: "string list \<Rightarrow> (string list, 'w) res \<Rightarrow> (string list, 'w) res" where
  "prepend xs (Done ys st) = Done (xs @ ys) st"
| "prepend xs (Failed e w) = Failed e w"
| "prepend xs OutOfFuel = OutOfFuel"

fun finish :: "shape \<Rightarrow> (string list, 'w) res \<Rightarrow> (string option, 'w) res" where
  "finish sh (Done partial st) = Done (Some (shape_text sh partial)) st"
| "finish sh (Failed e w) = Failed e w"
| "finish sh OutOfFuel = OutOfFuel"

text \<open>
  What \<^verbatim>\<open>SerializeJSONProperty\<close> does with the value the replacer returned: the text
  of a primitive, no text for \<^verbatim>\<open>undefined\<close> and for a callable, and for any other
  object \<^verbatim>\<open>SerializeJSONArray\<close> or \<^verbatim>\<open>SerializeJSONObject\<close>, which throw a TypeError
  when the object is already on the stack. \<open>stack\<close> lists the objects of the store
  being serialized; a fresh object cannot be on it twice. A Map, a Set and a function have
  no enumerable own property.
\<close>

fun own_properties :: "'w jsobject \<Rightarrow> slot list" where
  "own_properties (PlainObject props) = map (\<lambda>(P, v). Property P (Held v)) props"
| "own_properties _ = []"

fun dispatch :: "'w heap \<Rightarrow> addr list \<Rightarrow> tval \<Rightarrow> step" where
  "dispatch h stack (Held JUndefined) = Primitive None"
| "dispatch h stack (Held JNull) = Primitive (Some ''null'')"
| "dispatch h stack (Held (JBool t)) = Primitive (Some (if t then ''true'' else ''false''))"
| "dispatch h stack (Held (JStr s)) = Primitive (Some (QuoteJSONString s))"
| "dispatch h stack (Held (JNum (Whole i))) = Primitive (Some (NumberToString i))"
| "dispatch h stack (Held (JNum _)) = Primitive (Some ''null'')"
| "dispatch h stack (Held (JRef a)) =
     (case deref h a of
        FunctionObject len call \<Rightarrow> Primitive None
      | ArrayObject elems \<Rightarrow>
          if a \<in> set stack then Circular
          else Nested ArrayShape (a # stack) (map (\<lambda>v. Element (Held v)) elems)
      | obj \<Rightarrow>
          if a \<in> set stack then Circular
          else Nested ObjectShape (a # stack) (own_properties obj))"
| "dispatch h stack (FreshObject props) =
     Nested ObjectShape stack (map (\<lambda>(P, val). Property P val) props)"
| "dispatch h stack (FreshArray elems) = Nested ArrayShape stack (map Element elems)"

text \<open>Steps 2 and 3 of \<^verbatim>\<open>SerializeJSONProperty\<close> (the \<^verbatim>\<open>toJSON\<close> method, then the
  replacer), and the choice above.\<close>

definition visit :: "'w heap \<Rightarrow> bool \<Rightarrow> addr list \<Rightarrow> tval \<Rightarrow> 'w state \<Rightarrow> (step, 'w) res" where
  "visit h invokeFns stack val st =
     (case call_toJSON h val st of
        Done val1 st1 \<Rightarrow>
          (case replacer h invokeFns val1 st1 of
             Done val2 st2 \<Rightarrow> Done (dispatch h stack val2) st2
           | Failed e w \<Rightarrow> Failed e w
           | OutOfFuel \<Rightarrow> OutOfFuel)
      | Failed e w \<Rightarrow> Failed e w
      | OutOfFuel \<Rightarrow> OutOfFuel)"

text \<open>
  The fuel bounds the nesting depth of \<^verbatim>\<open>SerializeJSONProperty\<close> calls.
  \<open>SerializeJSONSlots\<close> is the loop of \<^verbatim>\<open>SerializeJSONObject\<close> over the keys and of
  \<^verbatim>\<open>SerializeJSONArray\<close> over the indices.
\<close>

function (sequential)
  SerializeJSONProperty ::
    "nat \<Rightarrow> 'w heap \<Rightarrow> bool \<Rightarrow> addr list \<Rightarrow> tval \<Rightarrow> 'w state \<Rightarrow> (string option, 'w) res"
  and SerializeJSONSlots ::
    "nat \<Rightarrow> 'w heap \<Rightarrow> bool \<Rightarrow> addr list \<Rightarrow> slot list \<Rightarrow> 'w state \<Rightarrow> (string list, 'w) res"
where
  "SerializeJSONProperty 0 h invokeFns stack val st = OutOfFuel"
| "SerializeJSONProperty (Suc n) h invokeFns stack val st =
     (case visit h invokeFns stack val st of
        Done (Primitive text) st' \<Rightarrow> Done text st'
      | Done Circular st' \<Rightarrow> Failed CircularStructure (world st')
      | Done (Nested sh stack' slots) st' \<Rightarrow>
          finish sh (SerializeJSONSlots n h invokeFns stack' slots st')
      | Failed e w \<Rightarrow> Failed e w
      | OutOfFuel \<Rightarrow> OutOfFuel)"
| "SerializeJSONSlots n h invokeFns stack [] st = Done [] st"
| "SerializeJSONSlots n h invokeFns stack (x # rest) st =
     (case SerializeJSONProperty n h invokeFns stack (slot_value x) st of
        Done strP st' \<Rightarrow>
          prepend (slot_text x strP) (SerializeJSONSlots n h invokeFns stack rest st')
      | Failed e w \<Rightarrow> Failed e w
      | OutOfFuel \<Rightarrow> OutOfFuel)"
  by pat_completeness auto
termination
  by (relation "measures
        [\<lambda>x. case x of Inl (n, _) \<Rightarrow> n | Inr (n, _) \<Rightarrow> n,
         \<lambda>x. case x of Inl _ \<Rightarrow> 0 | Inr (_, _, _, _, slots, _) \<Rightarrow> Suc (length slots)]")
     auto

section \<open>toJSON\<close>

datatype 'w outcome =
    Returns "string option" 'w
  | Throws error 'w
  | Diverges

text \<open>
  \<^verbatim>\<open>toJSON(value, invokeFns)\<close> with its \<^verbatim>\<open>seen\<close> map still in hand when
  \<^verbatim>\<open>JSON.stringify\<close> is done, and as the caller sees it. \<open>None\<close> is the result
  \<^verbatim>\<open>undefined\<close>.
\<close>

definition toJSON_run :: "nat \<Rightarrow> 'w heap \<Rightarrow> jsval \<Rightarrow> bool \<Rightarrow> 'w \<Rightarrow> (string option, 'w) res" where
  "toJSON_run fuel h val invokeFns w =
     SerializeJSONProperty fuel h invokeFns [] (Held val) \<lparr>seen = [], world = w\<rparr>"

definition toJSON :: "nat \<Rightarrow> 'w heap \<Rightarrow> jsval \<Rightarrow> bool \<Rightarrow> 'w \<Rightarrow> 'w outcome" where
  "toJSON fuel h val invokeFns w =
     (case toJSON_run fuel h val invokeFns w of
        Done text st \<Rightarrow> Returns text (world st)
      | Failed e w' \<Rightarrow> Throws e w'
      | OutOfFuel \<Rightarrow> Diverges)"

section \<open>Inputs of the examples\<close>

text \<open>\<^verbatim>\<open>const a = {}; a.self = a\<close>, at address 0.\<close>

definition self_cycle :: "'w heap" where
  "self_cycle = [PlainObject [(''self'', JRef 0)]]"

text \<open>\<^verbatim>\<open>const a = {n: 1}; a.self = a; a.t = "x"; a.me = a\<close>, at address 0.\<close>

definition self_twice :: "'w heap" where
  "self_twice =
     [PlainObject [(''n'', number 1), (''self'', JRef 0), (''t'', JStr ''x''), (''me'', JRef 0)]]"

text \<open>\<^verbatim>\<open>const a = {}; a.self = a; a.toJSON = () => 5\<close>: \<^verbatim>\<open>a\<close> at 0, the method
  at 1.\<close>

definition self_cycle_with_method :: "'w heap" where
  "self_cycle_with_method =
     [PlainObject [(''self'', JRef 0), (''toJSON'', JRef 1)],
      FunctionObject 0 (\<lambda>w. (Normal (Held (number 5)), w))]"

text \<open>\<^verbatim>\<open>const x = {}, y = {}; [x, y]\<close>: the array at 0, \<^verbatim>\<open>x\<close> at 1, \<^verbatim>\<open>y\<close> at 2.\<close>

definition two_empty_objects :: "'w heap" where
  "two_empty_objects = [ArrayObject [JRef 1, JRef 2], PlainObject [], PlainObject []]"

text \<open>\<^verbatim>\<open>const shared = {v: 1}; {a: shared, b: shared}\<close>: the outer object at 0,
  \<^verbatim>\<open>shared\<close> at 1.\<close>

definition shared_subobject :: "'w heap" where
  "shared_subobject =
     [PlainObject [(''a'', JRef 1), (''b'', JRef 1)], PlainObject [(''v'', number 1)]]"

text \<open>\<^verbatim>\<open>new Map([["k", 1]])\<close> and \<^verbatim>\<open>new Set([1, 2])\<close>.\<close>

definition map_k1 :: "'w heap" where
  "map_k1 = [MapObject [(JStr ''k'', number 1)]]"

definition set_12 :: "'w heap" where
  "set_12 = [SetObject [number 1, number 2]]"

text \<open>\<^verbatim>\<open>const m = new Map(); m.set("self", m)\<close>.\<close>

definition map_cycle :: "'w heap" where
  "map_cycle = [MapObject [(JStr ''self'', JRef 0)]]"

text \<open>\<^verbatim>\<open>const s = new Set([1]); [s, s]\<close>: the array at 0, the set at 1.\<close>

definition shared_set :: "'w heap" where
  "shared_set = [ArrayObject [JRef 1, JRef 1], SetObject [number 1]]"

text \<open>\<^verbatim>\<open>[null, null]\<close>.\<close>

definition two_nulls :: "'w heap" where
  "two_nulls = [ArrayObject [JNull, JNull]]"




text \<open>\<^verbatim>\<open>let i = 0; () => i++\<close>: the world is the counter.\<close>

definition counter :: "nat heap" where
  "counter = [FunctionObject 0 (\<lambda>w. (Normal (Held (number (int w))), Suc w))]"

text \<open>\<^verbatim>\<open>let i = 0; {toJSON(key) { return i++ }}\<close>: the object at 0, its method, which
  declares one parameter, at 1.\<close>

definition method_counter :: "nat heap" where
  "method_counter =
     [PlainObject [(''toJSON'', JRef 1)],
      FunctionObject 1 (\<lambda>w. (Normal (Held (number (int w))), Suc w))]"

text \<open>\<^verbatim>\<open>const g = (key) => 7; const f = () => ({toJSON: g})\<close>: \<^verbatim>\<open>f\<close> at 0,
  \<^verbatim>\<open>g\<close> at 1; and the same with \<^verbatim>\<open>g = (key) => { throw "x" }\<close>.\<close>

definition method_of_result :: "'w heap" where
  "method_of_result =
     [FunctionObject 0 (\<lambda>w. (Normal (FreshObject [(''toJSON'', Held (JRef 1))]), w)),
      FunctionObject 1 (\<lambda>w. (Normal (Held (number 7)), w))]"

definition throwing_method_of_result :: "'w heap" where
  "throwing_method_of_result =
     [FunctionObject 0 (\<lambda>w. (Normal (FreshObject [(''toJSON'', Held (JRef 1))]), w)),
      FunctionObject 1 (\<lambda>w. (Abrupt (Held (JStr ''x'')), w))]"




definition self_returning_function :: "'w heap" where
  "self_returning_function = [FunctionObject 0 (\<lambda>w. (Normal (Held (JRef 0)), w))]"


section \<open>Provisos on the input\<close>

text \<open>\<open>within t val\<close>: \<open>t\<close> is \<open>val\<close> or occurs in the fresh tree \<open>val\<close>.\<close>

inductive within :: "tval \<Rightarrow> tval \<Rightarrow> bool" where
  itself: "within t t"
| element: "t' \<in> set ts \<Longrightarrow> within t t' \<Longrightarrow> within t (FreshArray ts)"
| property: "(P, t') \<in> set ps \<Longrightarrow> within t t' \<Longrightarrow> within t (FreshObject ps)"

text \<open>
  The functions a call of \<^verbatim>\<open>toJSON\<close> may invoke: the replacer calls the functions
  without parameters when \<open>invokeFns\<close> holds, and \<^verbatim>\<open>JSON.stringify\<close> calls the
  \<^verbatim>\<open>toJSON\<close> method, whatever its parameter count and whatever the flag, of an object
  of the store and of an object inside what an invoked function returned.
\<close>

inductive_set invoked :: "'w heap \<Rightarrow> bool \<Rightarrow> addr set" for h :: "'w heap" and invokeFns :: bool where
  by_flag: "deref h f = FunctionObject 0 call \<Longrightarrow> invokeFns \<Longrightarrow> f \<in> invoked h invokeFns"
| as_method: "toJSON_method h (Held v) = Some f \<Longrightarrow> f \<in> invoked h invokeFns"
| as_method_of_result:
    "g \<in> invoked h invokeFns \<Longrightarrow> deref h g = FunctionObject len call \<Longrightarrow>
     call w = (Normal r, w') \<Longrightarrow> within t r \<Longrightarrow> toJSON_method h t = Some f \<Longrightarrow>
     f \<in> invoked h invokeFns"

text \<open>
  A function is deterministic and free of side effects when its completion does not
  depend on the world and it leaves the world as it is.
\<close>

definition pure_function :: "('w \<Rightarrow> completion \<times> 'w) \<Rightarrow> bool" where
  "pure_function call = (\<exists>c. \<forall>w. call w = (c, w))"

definition invoked_functions_pure :: "'w heap \<Rightarrow> bool \<Rightarrow> bool" where
  "invoked_functions_pure h invokeFns =
     (\<forall>f len call. f \<in> invoked h invokeFns \<longrightarrow> deref h f = FunctionObject len call \<longrightarrow>
        pure_function call)"

text \<open>The same of the functions without parameters only, which the flag has invoked.\<close>

definition flag_invoked_functions_pure :: "'w heap \<Rightarrow> bool \<Rightarrow> bool" where
  "flag_invoked_functions_pure h invokeFns =
     (\<forall>f call. deref h f = FunctionObject 0 call \<longrightarrow> invokeFns \<longrightarrow> pure_function call)"

text \<open>\<open>methods_in S h val\<close>: the \<^verbatim>\<open>toJSON\<close> methods of \<open>val\<close> and of the objects in
  it are among \<open>S\<close>.\<close>

definition methods_in :: "addr set \<Rightarrow> 'w heap \<Rightarrow> tval \<Rightarrow> bool" where
  "methods_in S h val = (\<forall>t f. within t val \<longrightarrow> toJSON_method h t = Some f \<longrightarrow> f \<in> S)"

text \<open>What a caller observes of a call, the world apart.\<close>

datatype result = Text "string option" | Exception error | NoResult

fun result_of :: "'w outcome \<Rightarrow> result" where
  "result_of (Returns text w) = Text text"
| "result_of (Throws e w) = Exception e"
| "result_of Diverges = NoResult"








section \<open>Measures of the traversal\<close>

text \<open>
  \<open>unseen\<close> counts the objects of the store the registry has no id for; \<open>grows\<close> says
  that a registry keeps the keys of another. Fuel \<open>n\<close> is enough for \<open>val\<close> when
  \<open>fits (cost \<dots>) n val\<close>: every object recorded pays for the levels below it.
\<close>

fun with_world :: "'w \<Rightarrow> ('a, 'w) res \<Rightarrow> ('a, 'w) res" where
  "with_world w (Done x st) = Done x (st\<lparr>world := w\<rparr>)"
| "with_world w (Failed e w') = Failed e w"
| "with_world w OutOfFuel = OutOfFuel"



text \<open>\<open>keeps s s'\<close>: every object that has an id in \<open>s\<close> has the same id in \<open>s'\<close>.\<close>

definition keeps :: "registry \<Rightarrow> registry \<Rightarrow> bool" where
  "keeps s s' = (\<forall>a i. map_of s (ObjId a) = Some i \<longrightarrow> map_of s' (ObjId a) = Some i)"



text \<open>The slots of the properties of a plain object, as \<open>own_properties\<close> lists
  them.\<close>

definition property_slots :: "(string \<times> jsval) list \<Rightarrow> slot list" where
  "property_slots props = map (\<lambda>(P, v). Property P (Held v)) props"

text \<open>A value that is a primitive, or the object \<open>a\<close>.\<close>

definition self_or_primitive :: "addr \<Rightarrow> jsval \<Rightarrow> bool" where
  "self_or_primitive a v = (case v of JRef a' \<Rightarrow> a' = a | _ \<Rightarrow> True)"

section \<open>Evaluation\<close>

lemmas run_defs =
  toJSON_def toJSON_run_def visit_def call_toJSON_def replacer_def deref_def seen_size_def
  cyclic_marker_def function_placeholder_def QuoteJSONString_def escape_unit_def
  object_text_def array_text_def NumberToString_def decimal.simps number_def Abs_whole_inverse

text \<open>The \<^verbatim>\<open>toJSON\<close> method, case by case.\<close>

lemma GetV_toJSON_simps [simp]:
  "GetV_toJSON h (Held (JRef a)) =
     (case deref h a of
        PlainObject props \<Rightarrow>
          (case map_of props ''toJSON'' of
             Some (JRef f) \<Rightarrow>
               (case deref h f of FunctionObject n call \<Rightarrow> Some call | _ \<Rightarrow> None)
           | _ \<Rightarrow> None)
      | _ \<Rightarrow> None)"
  "GetV_toJSON h (FreshObject props) =
     (case map_of props ''toJSON'' of
        Some (Held (JRef f)) \<Rightarrow>
          (case deref h f of FunctionObject n call \<Rightarrow> Some call | _ \<Rightarrow> None)
      | _ \<Rightarrow> None)"
  "GetV_toJSON h (FreshArray ts) = None"
  "GetV_toJSON h (Held JUndefined) = None"
  "GetV_toJSON h (Held JNull) = None"
  "GetV_toJSON h (Held (JBool t)) = None"
  "GetV_toJSON h (Held (JNum x)) = None"
  "GetV_toJSON h (Held (JStr s)) = None"
  by (simp_all add: GetV_toJSON_def toJSON_method_def
      split: jsobject.split option.split jsval.split tval.split)

lemma GetV_toJSON_method:
  "GetV_toJSON h val = Some call \<longleftrightarrow>
     (\<exists>f len. toJSON_method h val = Some f \<and> deref h f = FunctionObject len call)"
  by (auto simp: GetV_toJSON_def toJSON_method_def
      split: jsobject.splits option.splits jsval.splits tval.splits)


lemma string_slot:
  "SerializeJSONProperty n h b stack (Held (JStr s)) st = OutOfFuel \<or>
   SerializeJSONProperty n h b stack (Held (JStr s)) st = Done (Some (QuoteJSONString s)) st"
  by (cases n) (simp_all add: visit_def call_toJSON_def replacer_def)

section \<open>Decimal digits need no escape\<close>

lemma decimal_digits: "set (decimal n) \<subseteq> set ''0123456789''"
proof (induction n rule: decimal.induct)
  case (1 n)
  show ?case
  proof (cases "n < 10")
    case True
    then have "n \<in> {0,1,2,3,4,5,6,7,8,9}" by auto
    then show ?thesis by (subst decimal.simps) auto
  next
    case False
    have "n mod 10 \<in> {0,1,2,3,4,5,6,7,8,9}"
    proof -
      have "n mod 10 < 10" by simp
      then show ?thesis by (auto simp del: mod_less_divisor) 
    qed
    then have "''0123456789'' ! (n mod 10) \<in> set ''0123456789''" by auto
    with False 1 show ?thesis by (subst decimal.simps) auto
  qed
qed

lemma escape_digit: "c \<in> set ''0123456789'' \<Longrightarrow> escape_unit c = [c]"
  by (auto simp: escape_unit_def)

lemma escape_digits: "set xs \<subseteq> set ''0123456789'' \<Longrightarrow> concat (map escape_unit xs) = xs"
proof (induction xs)
  case Nil
  show ?case by simp
next
  case (Cons c xs)
  from Cons.prems have c: "c \<in> set ''0123456789''" and xs: "set xs \<subseteq> set ''0123456789''"
    by (simp_all del: set_simps add: list.set(2) [of c xs])
  from escape_digit [OF c] Cons.IH [OF xs] show ?case by simp
qed

lemma escape_decimal: "concat (map escape_unit (decimal n)) = decimal n"
  using escape_digits decimal_digits by blast


lemma quote_cyclic_marker:
  \<open>QuoteJSONString (cyclic_marker i) = ''"[[ cyclic ref *'' @ decimal i @ '' ]]"''\<close>
  by (simp add: QuoteJSONString_def cyclic_marker_def escape_decimal escape_unit_def)

section \<open>Fuel\<close>

text \<open>A call that has a result with some fuel has the same result with more.\<close>

lemma finish_OutOfFuel: "finish sh r = OutOfFuel \<longleftrightarrow> r = OutOfFuel"
  by (cases r) simp_all

lemma prepend_OutOfFuel: "prepend xs r = OutOfFuel \<longleftrightarrow> r = OutOfFuel"
  by (cases r) simp_all

lemma one_more_fuel:
  "SerializeJSONProperty n h b stack val st \<noteq> OutOfFuel \<Longrightarrow>
     SerializeJSONProperty (Suc n) h b stack val st = SerializeJSONProperty n h b stack val st"
  "SerializeJSONSlots n h b stack slots st \<noteq> OutOfFuel \<Longrightarrow>
     SerializeJSONSlots (Suc n) h b stack slots st = SerializeJSONSlots n h b stack slots st"
proof (induction n h b stack val st and n h b stack slots st
       rule: SerializeJSONProperty_SerializeJSONSlots.induct)
  case (1 h invokeFns stack val st)
  then show ?case by simp
next
  case (2 n h invokeFns stack val st)
  show ?case
  proof (cases "visit h invokeFns stack val st")
    case (Done step st')
    show ?thesis
    proof (cases step)
      case (Nested sh stack' slots)
      with Done "2.prems" have "SerializeJSONSlots n h invokeFns stack' slots st' \<noteq> OutOfFuel"
        by (simp add: finish_OutOfFuel)
      from "2.IH" [OF Done Nested this] Done Nested show ?thesis by simp
    qed (use Done in simp_all)
  qed simp_all
next
  case (3 n h invokeFns stack st)
  show ?case by simp
next
  case (4 n h invokeFns stack x rest st)
  show ?case
  proof (cases "SerializeJSONProperty n h invokeFns stack (slot_value x) st")
    case (Done strP st')
    with "4.prems" have "SerializeJSONSlots n h invokeFns stack rest st' \<noteq> OutOfFuel"
      by (simp add: prepend_OutOfFuel)
    from "4.IH"(2) [OF Done this] "4.IH"(1) Done show ?thesis
      by (simp del: SerializeJSONProperty.simps)
  next
    case (Failed e w)
    with "4.IH"(1) show ?thesis by (simp del: SerializeJSONProperty.simps)
  next
    case OutOfFuel
    with "4.prems" show ?thesis by simp
  qed
qed

lemma toJSON_more_fuel:
  assumes "toJSON n h val invokeFns w \<noteq> Diverges"
  shows "toJSON (n + k) h val invokeFns w = toJSON n h val invokeFns w"
proof (induction k)
  case 0
  show ?case by simp
next
  case (Suc k)
  from assms Suc have "toJSON_run (n + k) h val invokeFns w \<noteq> OutOfFuel"
    by (auto simp: toJSON_def split: res.splits)
  from one_more_fuel(1) [OF this [unfolded toJSON_run_def]] Suc show ?case
    by (simp add: toJSON_def toJSON_run_def del: SerializeJSONProperty.simps)
qed

section \<open>Maps and Sets are never recorded\<close>

lemma map_cycle_unfold:
  assumes "map_of (seen st) (ObjId 0) = None"
  shows "SerializeJSONProperty n map_cycle b stack (Held (JRef 0)) st = OutOfFuel
   \<and> SerializeJSONProperty n map_cycle b stack
        (FreshArray [FreshArray [Held (JStr ''self''), Held (JRef 0)]]) st = OutOfFuel
   \<and> SerializeJSONProperty n map_cycle b stack
        (FreshArray [Held (JStr ''self''), Held (JRef 0)]) st = OutOfFuel"
  using assms
proof (induction n arbitrary: st stack)
  case 0
  show ?case by simp
next
  case (Suc n)
  let ?st' = "st\<lparr>seen := AList.update (FreshId (length (seen st))) (length (seen st)) (seen st)\<rparr>"
  have fresh: "map_of (seen ?st') (ObjId 0) = None"
    using Suc.prems by (simp add: update_conv')
  note IH = Suc.IH [OF Suc.prems, of stack]
  note IH' = Suc.IH [OF fresh, of stack]
  have "SerializeJSONProperty (Suc n) map_cycle b stack (Held (JRef 0)) st =
      finish ObjectShape (SerializeJSONSlots n map_cycle b stack
        [Property ''kind'' (Held (JStr ''Map'')),
         Property ''value'' (FreshArray [FreshArray [Held (JStr ''self''), Held (JRef 0)]])] st)"
    using Suc.prems by (simp add: map_cycle_def visit_def call_toJSON_def replacer_def deref_def)
  also have "\<dots> = OutOfFuel"
    using string_slot [of n map_cycle b stack "''Map''" st] IH by auto
  finally have A: "SerializeJSONProperty (Suc n) map_cycle b stack (Held (JRef 0)) st = OutOfFuel" .
  have B: "SerializeJSONProperty (Suc n) map_cycle b stack
        (FreshArray [FreshArray [Held (JStr ''self''), Held (JRef 0)]]) st = OutOfFuel"
    using IH' by (simp add: visit_def call_toJSON_def replacer_def seen_size_def)
  have "SerializeJSONProperty (Suc n) map_cycle b stack
        (FreshArray [Held (JStr ''self''), Held (JRef 0)]) st =
      finish ArrayShape (SerializeJSONSlots n map_cycle b stack
        [Element (Held (JStr ''self'')), Element (Held (JRef 0))] ?st')"
    by (simp add: visit_def call_toJSON_def replacer_def seen_size_def)
  also have "\<dots> = OutOfFuel"
    using string_slot [of n map_cycle b stack "''self''" ?st'] IH' by auto
  finally have C: "SerializeJSONProperty (Suc n) map_cycle b stack
        (FreshArray [Held (JStr ''self''), Held (JRef 0)]) st = OutOfFuel" .
  from A B C show ?case by simp
qed

text \<open>
  C1. The claim: \<^verbatim>\<open>toJSON\<close> terminates on every input, self-referential Maps and Sets
  included, because a composite already visited is replaced by a marker. On the Map that
  contains itself the code does not: the replacer returns the
  \<^verbatim>\<open>{kind: "Map", ...}\<close> record before \<^verbatim>\<open>seen.set\<close>, so the Map is never recorded and
  each visit expands it again. No amount of fuel yields a result, whatever the flag.
\<close>

theorem toJSON_self_containing_Map_diverges:
  "toJSON n map_cycle (JRef 0) invokeFns w = Diverges"
  using map_cycle_unfold [of "\<lparr>seen = [], world = w\<rparr>" n invokeFns "[]"]
  by (simp add: toJSON_def toJSON_run_def)

text \<open>
  C2. The claim: every composite reached a second time, Maps and Sets included, is
  written as \<^verbatim>\<open>"[[ cyclic ref *<id> ]]"\<close>. For \<^verbatim>\<open>s = new Set([1])\<close> the code writes
  the second occurrence of \<^verbatim>\<open>s\<close> in \<^verbatim>\<open>[s, s]\<close> in full again.
\<close>

theorem toJSON_shared_Set_written_twice:
  \<open>toJSON (Suc (Suc (Suc (Suc n)))) shared_set (JRef 0) invokeFns w =
     Returns (Some ''[{"kind":"Set","value":[1]},{"kind":"Set","value":[1]}]'') w\<close>
  by (simp add: shared_set_def run_defs)

text \<open>
  The sibling path: an object that has an id is written as the marker with that id,
  whatever its kind.
\<close>

lemma recorded_object_is_marker:
  assumes "map_of (seen st) (ObjId a) = Some i"
    and "typeof h (Held (JRef a)) = TypeofObject inst"
    and "GetV_toJSON h (Held (JRef a)) = None"
  shows \<open>SerializeJSONProperty (Suc n) h invokeFns stack (Held (JRef a)) st =
           Done (Some (''"[[ cyclic ref *'' @ decimal i @ '' ]]"'')) st\<close>
  using assms
  by (simp add: visit_def call_toJSON_def replacer_def quote_cyclic_marker)

section \<open>null\<close>

text \<open>The first \<^verbatim>\<open>null\<close> of a traversal is written as \<^verbatim>\<open>null\<close>.\<close>

lemma toJSON_first_null:
  "toJSON (Suc n) h JNull invokeFns w = Returns (Some ''null'') w"
  by (simp add: run_defs)

text \<open>
  C4. The claim: every occurrence of \<^verbatim>\<open>null\<close> is written as the literal \<^verbatim>\<open>null\<close>.
  \<^verbatim>\<open>typeof null\<close> is \<^verbatim>\<open>"object"\<close>, so the replacer records \<^verbatim>\<open>null\<close> in \<^verbatim>\<open>seen\<close>
  at its first occurrence (under id 1 here, the array having id 0) and writes a marker for
  the second one.
\<close>

theorem toJSON_second_null_is_marker:
  \<open>toJSON (Suc (Suc n)) two_nulls (JRef 0) invokeFns w =
     Returns (Some ''[null,"[[ cyclic ref *1 ]]"]'') w\<close>
  by (simp add: two_nulls_def run_defs)

section \<open>The examples of the specification\<close>

text \<open>
  C5, as stated: for \<^verbatim>\<open>shared = {v: 1}\<close>, \<^verbatim>\<open>{a: shared, b: shared}\<close> has field
  \<^verbatim>\<open>b\<close> written as \<^verbatim>\<open>"[[ cyclic ref *0 ]]"\<close>. It is not: the text differs from the
  one the claim gives.
\<close>

theorem shared_subobject_is_not_id_0:
  \<open>toJSON 3 shared_subobject (JRef 0) False () \<noteq>
     Returns (Some ''{"a":{"v":1},"b":"[[ cyclic ref *0 ]]"}'') ()\<close>
  by (simp add: shared_subobject_def run_defs eval_nat_numeral)

text \<open>
  C5, amended: the outer object is the first composite the replacer meets and takes id 0;
  \<^verbatim>\<open>shared\<close> takes id 1 at its first visit, where field \<^verbatim>\<open>a\<close> is written as
  \<^verbatim>\<open>{"v":1}\<close>, and field \<^verbatim>\<open>b\<close> is written as \<^verbatim>\<open>"[[ cyclic ref *1 ]]"\<close>.
\<close>

theorem shared_subobject_is_id_1:
  \<open>toJSON (Suc (Suc (Suc n))) shared_subobject (JRef 0) False w =
     Returns (Some ''{"a":{"v":1},"b":"[[ cyclic ref *1 ]]"}'') w \<and>
   toJSON_run (Suc (Suc (Suc n))) shared_subobject (JRef 0) False w =
     Done (Some ''{"a":{"v":1},"b":"[[ cyclic ref *1 ]]"}'')
          \<lparr>seen = [(ObjId 0, 0), (ObjId 1, 1)], world = w\<rparr>\<close>
  by (simp add: shared_subobject_def run_defs)

text \<open>
  C7. For two distinct empty objects \<^verbatim>\<open>x\<close> and \<^verbatim>\<open>y\<close>, \<^verbatim>\<open>[x, y]\<close> is written as
  \<^verbatim>\<open>[{},{}]\<close>: \<^verbatim>\<open>y\<close> is not taken for \<^verbatim>\<open>x\<close>, and each is recorded under an id of
  its own.
\<close>

theorem distinct_empty_objects_encoding:
  \<open>toJSON (Suc (Suc n)) two_empty_objects (JRef 0) False w = Returns (Some ''[{},{}]'') w \<and>
   toJSON_run (Suc (Suc n)) two_empty_objects (JRef 0) False w =
     Done (Some ''[{},{}]'')
          \<lparr>seen = [(ObjId 0, 0), (ObjId 1, 1), (ObjId 2, 2)], world = w\<rparr>\<close>
  by (simp add: two_empty_objects_def run_defs)

text \<open>
  C9. A Map with the entries \<^verbatim>\<open>[["k", 1]]\<close> is written as
  \<^verbatim>\<open>{"kind":"Map","value":[["k",1]]}\<close> and a Set with the elements \<^verbatim>\<open>[1, 2]\<close> as
  \<^verbatim>\<open>{"kind":"Set","value":[1,2]}\<close>, the elements in the order of iteration.
\<close>

theorem map_and_set_encoding:
  \<open>toJSON (Suc (Suc (Suc (Suc n)))) map_k1 (JRef 0) invokeFns w =
     Returns (Some ''{"kind":"Map","value":[["k",1]]}'') w \<and>
   toJSON (Suc (Suc (Suc n))) set_12 (JRef 0) invokeFns w =
     Returns (Some ''{"kind":"Set","value":[1,2]}'') w\<close>
  by (simp add: map_k1_def set_12_def run_defs)

text \<open>A Set of numbers, whatever its elements: they are written in the order of iteration.\<close>

lemma number_slots:
  "SerializeJSONSlots (Suc n) h invokeFns stack
       (map (\<lambda>i. Element (Held (JNum (Whole i)))) xs) st =
     Done (map NumberToString xs) st"
  by (induction xs) (simp_all add: visit_def call_toJSON_def replacer_def)

lemma set_of_numbers_in_order:
  \<open>toJSON (Suc (Suc (Suc n))) [SetObject (map (\<lambda>i. JNum (Whole i)) xs)] (JRef 0) invokeFns w =
     Returns (Some (''{"kind":"Set","value":'' @ array_text (map NumberToString xs) @ ''}'')) w\<close>
  by (simp add: number_slots toJSON_def toJSON_run_def visit_def call_toJSON_def replacer_def
      deref_def seen_size_def QuoteJSONString_def escape_unit_def object_text_def comp_def)

section \<open>Function values\<close>





text \<open>
  An object that a function returns is asked for its \<^verbatim>\<open>toJSON\<close> method like any other:
  \<^verbatim>\<open>f = () => ({toJSON: g})\<close> is written with what \<^verbatim>\<open>g\<close> returns, and an exception
  of \<^verbatim>\<open>g\<close> ends the traversal.
\<close>

lemma toJSON_method_of_result:
  \<open>toJSON (Suc (Suc n)) method_of_result (JRef 0) True w =
     Returns (Some ''{"kind":"Function","result":7}'') w\<close>
  by (simp add: method_of_result_def run_defs)

lemma toJSON_throwing_method_of_result:
  "toJSON (Suc (Suc n)) throwing_method_of_result (JRef 0) True w =
     Throws (InvocationFailure (Held (JStr ''x''))) w"
  by (simp add: throwing_method_of_result_def run_defs)

section \<open>The methods met in a traversal\<close>

inductive_cases within_HeldE: "within t (Held v)"
inductive_cases within_ArrayE: "within t (FreshArray ts)"
inductive_cases within_ObjectE: "within t (FreshObject ps)"

lemma within_Held: "within t (Held v) \<longleftrightarrow> t = Held v"
  by (auto intro: within.itself elim: within_HeldE)

lemma within_FreshArray:
  "within t (FreshArray ts) \<longleftrightarrow> t = FreshArray ts \<or> (\<exists>t' \<in> set ts. within t t')"
  by (auto intro: within.intros elim: within_ArrayE)

lemma within_FreshObject:
  "within t (FreshObject ps) \<longleftrightarrow> t = FreshObject ps \<or> (\<exists>(P, t') \<in> set ps. within t t')"
  by (auto intro: within.intros elim: within_ObjectE)

lemma toJSON_method_simps [simp]:
  "toJSON_method h (FreshArray ts) = None"
  "toJSON_method h (Held JUndefined) = None"
  "toJSON_method h (Held JNull) = None"
  "toJSON_method h (Held (JBool b)) = None"
  "toJSON_method h (Held (JNum x)) = None"
  "toJSON_method h (Held (JStr s)) = None"
  by (simp_all add: toJSON_method_def)

lemma methods_in_self: "methods_in S h val \<Longrightarrow> toJSON_method h val = Some f \<Longrightarrow> f \<in> S"
  unfolding methods_in_def by (blast intro: within.itself)

lemma methods_in_Held:
  "methods_in S h (Held v) \<longleftrightarrow> (\<forall>f. toJSON_method h (Held v) = Some f \<longrightarrow> f \<in> S)"
  by (simp add: methods_in_def within_Held)

lemma methods_in_FreshArray:
  "methods_in S h (FreshArray ts) \<longleftrightarrow> (\<forall>t \<in> set ts. methods_in S h t)"
  by (auto simp: methods_in_def within_FreshArray)

lemma methods_in_FreshObject:
  "methods_in S h (FreshObject ps) \<longleftrightarrow>
     (\<forall>f. toJSON_method h (FreshObject ps) = Some f \<longrightarrow> f \<in> S) \<and>
     (\<forall>(P, t) \<in> set ps. methods_in S h t)"
  by (auto simp: methods_in_def within_FreshObject)

lemma typeof_function:
  assumes "typeof h val = TypeofFunction len call"
  shows "\<exists>a. val = Held (JRef a) \<and> deref h a = FunctionObject len call"
  using assms by (cases "(h, val)" rule: typeof.cases) (auto split: jsobject.splits)

text \<open>
  When the methods of the store and of what the functions called return are among \<open>S\<close>,
  so are the methods of every value the traversal goes on to.
\<close>

lemma call_toJSON_methods:
  assumes results: "\<forall>g len call w r w'. deref h g = FunctionObject len call \<longrightarrow>
        (len = 0 \<and> b) \<or> g \<in> S \<longrightarrow> call w = (Normal r, w') \<longrightarrow> methods_in S h r"
    and val: "methods_in S h val"
    and call: "call_toJSON h val st = Done val1 st1"
  shows "methods_in S h val1"
proof (cases "GetV_toJSON h val")
  case None
  with call val show ?thesis by (simp add: call_toJSON_def)
next
  case (Some c)
  then obtain f len where f: "toJSON_method h val = Some f" and d: "deref h f = FunctionObject len c"
    by (auto simp: GetV_toJSON_method)
  from methods_in_self [OF val f] have "f \<in> S" .
  moreover from call Some obtain w' where "c (world st) = (Normal val1, w')"
    by (auto simp: call_toJSON_def split: prod.splits completion.splits)
  ultimately show ?thesis using results d by blast
qed

lemma replacer_methods:
  assumes store: "\<forall>v. methods_in S h (Held v)"
    and results: "\<forall>g len call w r w'. deref h g = FunctionObject len call \<longrightarrow>
        (len = 0 \<and> b) \<or> g \<in> S \<longrightarrow> call w = (Normal r, w') \<longrightarrow> methods_in S h r"
    and val: "methods_in S h val1"
    and r: "replacer h b val1 st1 = Done val2 st2"
  shows "methods_in S h val2"
proof (cases "typeof h val1")
  case (TypeofFunction len call)
  from typeof_function [OF this] obtain a where d: "deref h a = FunctionObject len call" by blast
  show ?thesis
  proof (cases "len = 0 \<and> b")
    case False
    with r TypeofFunction show ?thesis by (auto simp: replacer_def methods_in_Held)
  next
    case True
    with r TypeofFunction obtain res w' where c: "call (world st1) = (Normal res, w')"
      and val2: "val2 = FreshObject [(''kind'', Held (JStr ''Function'')), (''result'', res)]"
      by (auto simp: replacer_def split: prod.splits completion.splits)
    from results d c True have "methods_in S h res" by blast
    then show ?thesis
      by (simp add: val2 methods_in_FreshObject methods_in_Held toJSON_method_def)
  qed
next
  case (TypeofObject inst)
  show ?thesis
  proof (cases "seen_get (seen st1) val1")
    case (Some i)
    with r TypeofObject show ?thesis by (auto simp: replacer_def methods_in_Held)
  next
    case None
    show ?thesis
    proof (cases inst)
      case (MapInstance entries)
      with r TypeofObject None have
        "val2 = FreshObject [(''kind'', Held (JStr ''Map'')),
           (''value'', FreshArray (map (\<lambda>(k, v). FreshArray [Held k, Held v]) entries))]"
        by (simp add: replacer_def)
      then show ?thesis
        using store
        by (auto simp: methods_in_FreshObject methods_in_FreshArray toJSON_method_def)
    next
      case (SetInstance elems)
      with r TypeofObject None have
        "val2 = FreshObject [(''kind'', Held (JStr ''Set'')), (''value'', FreshArray (map Held elems))]"
        by (simp add: replacer_def)
      then show ?thesis
        using store
        by (auto simp: methods_in_FreshObject methods_in_FreshArray toJSON_method_def)
    next
      case OtherObject
      with r TypeofObject None val show ?thesis by (simp add: replacer_def)
    qed
  qed
next
  case TypeofOther
  with r val show ?thesis by (simp add: replacer_def)
qed

lemma dispatch_methods:
  assumes store: "\<forall>v. methods_in S h (Held v)"
    and val: "methods_in S h val2"
    and d: "dispatch h stack val2 = Nested sh stack' slots"
  shows "\<forall>x \<in> set slots. methods_in S h (slot_value x)"
proof (cases val2)
  case (Held v)
  have "\<exists>u. slot_value x = Held u" if "x \<in> set slots" for x
    using d that unfolding Held
    by (cases "(h, stack, Held v)" rule: dispatch.cases)
       (auto split: jsobject.splits if_splits elim!: own_properties.elims)
  with store show ?thesis by metis
next
  case (FreshObject ps)
  with d val show ?thesis by (fastforce simp: methods_in_FreshObject)
next
  case (FreshArray ts)
  with d val show ?thesis by (auto simp: methods_in_FreshArray)
qed

lemma visit_methods:
  assumes store: "\<forall>v. methods_in S h (Held v)"
    and results: "\<forall>g len call w r w'. deref h g = FunctionObject len call \<longrightarrow>
        (len = 0 \<and> b) \<or> g \<in> S \<longrightarrow> call w = (Normal r, w') \<longrightarrow> methods_in S h r"
    and val: "methods_in S h val"
    and v: "visit h b stack val st = Done (Nested sh stack' slots) st'"
  shows "\<forall>x \<in> set slots. methods_in S h (slot_value x)"
proof -
  from v obtain val1 st1 val2 where c: "call_toJSON h val st = Done val1 st1"
    and r: "replacer h b val1 st1 = Done val2 st'"
    and d: "dispatch h stack val2 = Nested sh stack' slots"
    by (auto simp: visit_def split: res.splits)
  from call_toJSON_methods [OF results val c] have "methods_in S h val1" by blast
  from replacer_methods [OF store results this r] have "methods_in S h val2" by blast
  from dispatch_methods [OF store this d] show ?thesis .
qed

section \<open>Determinism\<close>


lemma invoked_store: "\<forall>v. methods_in (invoked h b) h (Held v)"
  by (auto simp: methods_in_Held intro: invoked.as_method)

lemma invoked_results:
  "\<forall>g len call w r w'. deref h g = FunctionObject len call \<longrightarrow>
     (len = 0 \<and> b) \<or> g \<in> invoked h b \<longrightarrow> call w = (Normal r, w') \<longrightarrow>
     methods_in (invoked h b) h r"
proof (intro allI impI)
  fix g len call w r w'
  assume d: "deref h g = FunctionObject len call" and "(len = 0 \<and> b) \<or> g \<in> invoked h b"
    and c: "call w = (Normal r, w')"
  then have "g \<in> invoked h b" by (auto intro: invoked.by_flag)
  with d c show "methods_in (invoked h b) h r"
    unfolding methods_in_def by (blast intro: invoked.as_method_of_result)
qed

lemma call_toJSON_pure:
  assumes "invoked_functions_pure h b" "methods_in (invoked h b) h val"
  shows "call_toJSON h val (st\<lparr>world := w\<rparr>) = with_world w (call_toJSON h val st)"
proof (cases "GetV_toJSON h val")
  case None
  then show ?thesis by (simp add: call_toJSON_def)
next
  case (Some call)
  then obtain f len where f: "toJSON_method h val = Some f" and d: "deref h f = FunctionObject len call"
    by (auto simp: GetV_toJSON_method)
  from methods_in_self [OF assms(2) f] d assms(1) obtain c where "\<forall>w. call w = (c, w)"
    unfolding invoked_functions_pure_def pure_function_def by blast
  with Some show ?thesis by (cases c) (simp_all add: call_toJSON_def)
qed

lemma replacer_pure:
  assumes "invoked_functions_pure h b"
  shows "replacer h b val (st\<lparr>world := w\<rparr>) = with_world w (replacer h b val st)"
proof (cases "typeof h val")
  case (TypeofFunction len call)
  show ?thesis
  proof (cases "len = 0 \<and> b")
    case False
    with TypeofFunction show ?thesis by (auto simp: replacer_def)
  next
    case True
    from typeof_function [OF TypeofFunction] obtain a where d: "deref h a = FunctionObject len call"
      by blast
    with True have "a \<in> invoked h b" by (auto intro: invoked.by_flag)
    with assms d obtain c where "\<forall>w. call w = (c, w)"
      unfolding invoked_functions_pure_def pure_function_def by blast
    with TypeofFunction True show ?thesis by (cases c) (simp_all add: replacer_def)
  qed
next
  case (TypeofObject inst)
  then show ?thesis
    by (simp add: replacer_def split: option.split objclass.split)
next
  case TypeofOther
  then show ?thesis by (simp add: replacer_def)
qed

lemma visit_pure:
  assumes "invoked_functions_pure h b" "methods_in (invoked h b) h val"
  shows "visit h b stack val (st\<lparr>world := w\<rparr>) = with_world w (visit h b stack val st)"
proof (cases "call_toJSON h val st")
  case (Done val1 st1)
  then show ?thesis
    using call_toJSON_pure [OF assms, where st=st and w=w]
      replacer_pure [OF assms(1), where val=val1 and st=st1 and w=w]
    by (cases "replacer h b val1 st1") (simp_all add: visit_def)
next
  case (Failed e w')
  then show ?thesis using call_toJSON_pure [OF assms, where st=st and w=w] by (simp add: visit_def)
next
  case OutOfFuel
  then show ?thesis using call_toJSON_pure [OF assms, where st=st and w=w] by (simp add: visit_def)
qed

lemma finish_with_world: "finish sh (with_world w r) = with_world w (finish sh r)"
  by (cases r) simp_all

lemma prepend_with_world: "prepend xs (with_world w r) = with_world w (prepend xs r)"
  by (cases r) simp_all

lemma world_independent:
  assumes "invoked_functions_pure h b"
  shows "methods_in (invoked h b) h val \<Longrightarrow>
         SerializeJSONProperty n h b stack val (st\<lparr>world := w\<rparr>) =
           with_world w (SerializeJSONProperty n h b stack val st)"
    and "(\<forall>x \<in> set slots. methods_in (invoked h b) h (slot_value x)) \<Longrightarrow>
         SerializeJSONSlots n h b stack slots (st\<lparr>world := w\<rparr>) =
           with_world w (SerializeJSONSlots n h b stack slots st)"
  using assms
proof (induction n h b stack val st and n h b stack slots st
       rule: SerializeJSONProperty_SerializeJSONSlots.induct)
  case (1 h invokeFns stack val st)
  show ?case by simp
next
  case (2 n h invokeFns stack val st)
  note v = visit_pure [OF "2.prems"(2,1), where stack=stack and st=st and w=w]
  show ?case
  proof (cases "visit h invokeFns stack val st")
    case (Done step st')
    show ?thesis
    proof (cases step)
      case (Nested sh stack' slots)
      from Done Nested have "visit h invokeFns stack val st = Done (Nested sh stack' slots) st'"
        by simp
      from visit_methods [OF invoked_store invoked_results "2.prems"(1) this]
      have "\<forall>x \<in> set slots. methods_in (invoked h invokeFns) h (slot_value x)" by blast
      with Done Nested "2.IH" [OF Done Nested _ "2.prems"(2)] v show ?thesis
        by (simp add: finish_with_world)
    qed (use Done v in simp_all)
  qed (use v in simp_all)
next
  case (3 n h invokeFns stack st)
  show ?case by simp
next
  case (4 n h invokeFns stack x rest st)
  from "4.prems"(1) have x: "methods_in (invoked h invokeFns) h (slot_value x)"
    and rest: "\<forall>y \<in> set rest. methods_in (invoked h invokeFns) h (slot_value y)"
    by simp_all
  note p = "4.IH"(1) [OF x "4.prems"(2)]
  show ?case
  proof (cases "SerializeJSONProperty n h invokeFns stack (slot_value x) st")
    case (Done strP st')
    with p "4.IH"(2) [OF Done rest "4.prems"(2)] show ?thesis
      by (simp add: prepend_with_world)
  qed (use p in simp_all)
qed

text \<open>
  C10, as stated: two calls of \<^verbatim>\<open>toJSON\<close> on the same graph with the same flag give
  the same output, provided the functions invoked (those without parameters, when the flag
  is set) are deterministic and free of side effects. \<^verbatim>\<open>JSON.stringify\<close> also calls
  the \<^verbatim>\<open>toJSON\<close> method of an object, whatever its parameter count and whatever the
  flag. For \<^verbatim>\<open>let i = 0; {toJSON(key) { return i++ }}\<close> no function without
  parameters exists, so the proviso holds for both flags, and the second call gives
  \<^verbatim>\<open>1\<close> where the first gave \<^verbatim>\<open>0\<close>.
\<close>

theorem toJSON_method_counter_differs:
  \<open>flag_invoked_functions_pure method_counter False \<and>
   flag_invoked_functions_pure method_counter True \<and>
   toJSON 1 method_counter (JRef 0) False 0 = Returns (Some ''0'') 1 \<and>
   toJSON 1 method_counter (JRef 0) False 1 = Returns (Some ''1'') 2 \<and>
   toJSON 1 method_counter (JRef 0) True 0 = Returns (Some ''0'') 1 \<and>
   toJSON 1 method_counter (JRef 0) True 1 = Returns (Some ''1'') 2\<close>
  by (simp add: flag_invoked_functions_pure_def method_counter_def run_defs All_less_Suc)

text \<open>
  C10, amended. For every graph and every flag, two calls of \<^verbatim>\<open>toJSON\<close> give the same
  output (the same text, the same exception, or no result both times), whatever the world
  each call starts in (so also when the second call starts where the first one ended),
  provided every function the calls invoke is deterministic and free of side effects: the
  functions without parameters when the flag is set, and the \<^verbatim>\<open>toJSON\<close> methods, with
  any number of parameters and whatever the flag, of the objects of the graph and of the
  objects that invoked functions return. Each call starts from an empty \<^verbatim>\<open>seen\<close> map.
\<close>

theorem toJSON_deterministic:
  assumes "invoked_functions_pure h invokeFns"
  shows "result_of (toJSON n h val invokeFns w) = result_of (toJSON n h val invokeFns w')"
proof -
  let ?r = "SerializeJSONProperty n h invokeFns [] (Held val) \<lparr>seen = [], world = w\<rparr>"
  have "SerializeJSONProperty n h invokeFns [] (Held val) \<lparr>seen = [], world = w'\<rparr> =
        with_world w' ?r"
    using world_independent(1) [OF assms, where n=n and stack="[]" and val="Held val"
        and st="\<lparr>seen = [], world = w\<rparr>" and w=w'] invoked_store [of h invokeFns]
    by simp
  then show ?thesis
    by (cases ?r) (simp_all add: toJSON_def toJSON_run_def)
qed

theorem toJSON_deterministic_witness:
  \<open>invoked_functions_pure (method_of_result :: nat heap) True \<and>
   result_of (toJSON 2 method_of_result (JRef 0) True (0::nat)) =
   result_of (toJSON 2 method_of_result (JRef 0) True (7::nat)) \<and>
   result_of (toJSON 2 method_of_result (JRef 0) True (0::nat)) =
   Text (Some ''{"kind":"Function","result":7}'')\<close>
proof -
  have "pure_function call" if "deref (method_of_result :: nat heap) f = FunctionObject len call"
    for f len call
    using that
    by (auto simp: method_of_result_def deref_def pure_function_def nth_Cons'
             split: if_splits)
  then have "invoked_functions_pure (method_of_result :: nat heap) True"
    unfolding invoked_functions_pure_def by blast
  with toJSON_deterministic [of method_of_result True 2 "JRef 0" 0 7]
  show ?thesis by (simp add: method_of_result_def run_defs eval_nat_numeral)
qed

text \<open>
  Each part of the proviso is needed: the two calls differ on a function without
  parameters that counts its calls when the flag is set.
\<close>

lemma toJSON_counter_differs:
  \<open>toJSON 2 counter (JRef 0) True 0 = Returns (Some ''{"kind":"Function","result":0}'') 1 \<and>
   toJSON 2 counter (JRef 0) True 1 = Returns (Some ''{"kind":"Function","result":1}'') 2\<close>
  by (simp add: counter_def run_defs eval_nat_numeral)

section \<open>The registry in a traversal\<close>

text \<open>
  The replacer returns a string, a wrapper it has built, or the value it was given; it
  records the value in the last case when \<^verbatim>\<open>typeof\<close> is \<^verbatim>\<open>"object"\<close>, and only
  then, under an id that no object had.
\<close>

lemma call_toJSON_seen: "call_toJSON h val st = Done val1 st1 \<Longrightarrow> seen st1 = seen st"
  by (auto simp: call_toJSON_def split: option.splits prod.splits completion.splits)

lemma replacer_result:
  assumes "replacer h b val1 st1 = Done val2 st2"
  shows "(seen st2 = seen st1 \<and>
            ((\<exists>s. val2 = Held (JStr s)) \<or> (\<exists>ps. val2 = FreshObject ps) \<or>
             (val2 = val1 \<and> typeof h val1 = TypeofOther))) \<or>
         (val2 = val1 \<and> typeof h val1 = TypeofObject OtherObject \<and>
            seen_get (seen st1) val1 = None \<and>
            seen st2 = seen_set (seen st1) val1 (seen_size (seen st1)))"
  using assms
  by (auto simp: replacer_def
      split: jstype.splits if_splits prod.splits completion.splits option.splits objclass.splits)

lemma visit_failure:
  assumes "visit h b stack val st = Failed e w"
  shows "\<exists>t. e = InvocationFailure t"
  using assms
  by (auto simp: visit_def call_toJSON_def replacer_def
      split: res.splits jstype.splits if_splits prod.splits completion.splits option.splits
        objclass.splits)

lemma dispatch_other:
  assumes "typeof h val = TypeofOther"
  shows "\<exists>t. dispatch h stack val = Primitive t \<and> (val = Held JUndefined \<or> t \<noteq> None)"
  using assms
  by (cases "(h, stack, val)" rule: dispatch.cases) (auto split: jsobject.splits)

lemma keeps_refl: "keeps s s"
  by (simp add: keeps_def)

lemma keeps_trans: "keeps s s' \<Longrightarrow> keeps s' s'' \<Longrightarrow> keeps s s''"
  by (simp add: keeps_def)

lemma keeps_recorded: "keeps s s' \<Longrightarrow> map_of s (ObjId a) \<noteq> None \<Longrightarrow> map_of s' (ObjId a) \<noteq> None"
  by (auto simp: keeps_def)

lemma visit_safe:
  assumes v: "visit h b stack val st = Done step st'"
    and inv: "\<forall>a \<in> set stack. map_of (seen st) (ObjId a) \<noteq> None"
  shows "keeps (seen st) (seen st') \<and> step \<noteq> Circular \<and>
         (\<forall>sh stack' slots. step = Nested sh stack' slots \<longrightarrow>
            (\<forall>a \<in> set stack'. map_of (seen st') (ObjId a) \<noteq> None))"
proof -
  from v obtain val1 st1 val2 where c: "call_toJSON h val st = Done val1 st1"
    and r: "replacer h b val1 st1 = Done val2 st'"
    and d: "step = dispatch h stack val2"
    by (auto simp: visit_def split: res.splits)
  note s1 = call_toJSON_seen [OF c]
  from replacer_result [OF r] consider
      (string) s where "val2 = Held (JStr s)" "seen st' = seen st1"
    | (wrapper) ps where "val2 = FreshObject ps" "seen st' = seen st1"
    | (other) "val2 = val1" "typeof h val1 = TypeofOther" "seen st' = seen st1"
    | (recorded) "val2 = val1" "typeof h val1 = TypeofObject OtherObject"
        "seen_get (seen st1) val1 = None"
        "seen st' = seen_set (seen st1) val1 (seen_size (seen st1))"
    by (elim disjE conjE exE) blast+
  then show ?thesis
  proof cases
    case string
    with d s1 show ?thesis by (simp add: keeps_refl)
  next
    case wrapper
    with d s1 inv show ?thesis by (simp add: keeps_refl)
  next
    case other
    with d s1 dispatch_other [OF other(2), of stack] show ?thesis by (auto simp: keeps_refl)
  next
    case recorded
    with d s1 inv show ?thesis
      by (cases "(h, val1)" rule: typeof.cases)
         (auto simp: keeps_def update_conv' split: jsobject.splits if_splits)
  qed
qed

text \<open>
  The objects \<^verbatim>\<open>JSON.stringify\<close> is inside of have an id, so the replacer never hands it
  one of them: its own check for a circular structure never fails. An id once given
  stays.
\<close>

lemma serialize_safe:
  shows "(\<forall>a \<in> set stack. map_of (seen st) (ObjId a) \<noteq> None) \<Longrightarrow>
         SerializeJSONProperty n h b stack val st \<noteq> Failed CircularStructure w' \<and>
         (\<forall>r st'. SerializeJSONProperty n h b stack val st = Done r st' \<longrightarrow>
            keeps (seen st) (seen st'))"
    and "(\<forall>a \<in> set stack. map_of (seen st) (ObjId a) \<noteq> None) \<Longrightarrow>
         SerializeJSONSlots n h b stack slots st \<noteq> Failed CircularStructure w' \<and>
         (\<forall>r st'. SerializeJSONSlots n h b stack slots st = Done r st' \<longrightarrow>
            keeps (seen st) (seen st'))"
proof (induction n h b stack val st and n h b stack slots st
       rule: SerializeJSONProperty_SerializeJSONSlots.induct)
  case (1 h invokeFns stack val st)
  show ?case by simp
next
  case (2 n h invokeFns stack val st)
  show ?case
  proof (cases "visit h invokeFns stack val st")
    case (Done step st1)
    note safe = visit_safe [OF Done "2.prems"]
    show ?thesis
    proof (cases step)
      case (Primitive out)
      with Done safe show ?thesis by simp
    next
      case Circular
      with safe show ?thesis by simp
    next
      case (Nested sh stack' slots)
      with safe have "\<forall>a \<in> set stack'. map_of (seen st1) (ObjId a) \<noteq> None" by simp
      from "2.IH" [OF Done Nested this] safe Done Nested show ?thesis
        by (cases "SerializeJSONSlots n h invokeFns stack' slots st1")
           (auto intro: keeps_trans)
    qed
  next
    case (Failed e w)
    with visit_failure [OF Failed] show ?thesis by auto
  next
    case OutOfFuel
    then show ?thesis by simp
  qed
next
  case (3 n h invokeFns stack st)
  show ?case by (simp add: keeps_refl)
next
  case (4 n h invokeFns stack x rest st)
  note p = "4.IH"(1) [OF "4.prems"]
  show ?case
  proof (cases "SerializeJSONProperty n h invokeFns stack (slot_value x) st")
    case (Done strP st1)
    with p have k: "keeps (seen st) (seen st1)" by simp
    with "4.prems" have "\<forall>a \<in> set stack. map_of (seen st1) (ObjId a) \<noteq> None"
      using keeps_recorded by blast
    from "4.IH"(2) [OF Done this] k Done show ?thesis
      by (cases "SerializeJSONSlots n h invokeFns stack rest st1")
         (auto intro: keeps_trans simp del: SerializeJSONProperty.simps)
  next
    case (Failed e w)
    with p show ?thesis by (simp del: SerializeJSONProperty.simps)
  next
    case OutOfFuel
    then show ?thesis by (simp del: SerializeJSONProperty.simps)
  qed
qed




section \<open>An object that refers to itself\<close>

lemma prepend_prepend: "prepend xs (prepend ys r) = prepend (xs @ ys) r"
  by (cases r) simp_all

lemma slots_append:
  "SerializeJSONSlots n h b stack (xs @ ys) st =
     (case SerializeJSONSlots n h b stack xs st of
        Done parts st1 \<Rightarrow> prepend parts (SerializeJSONSlots n h b stack ys st1)
      | Failed e w \<Rightarrow> Failed e w
      | OutOfFuel \<Rightarrow> OutOfFuel)"
proof (induction xs arbitrary: st)
  case Nil
  show ?case by (cases "SerializeJSONSlots n h b stack ys st") simp_all
next
  case (Cons x xs)
  show ?case
  proof (cases "SerializeJSONProperty n h b stack (slot_value x) st")
    case (Done strP st')
    then show ?thesis
      by (cases "SerializeJSONSlots n h b stack xs st'")
         (simp_all add: Cons.IH prepend_prepend del: SerializeJSONProperty.simps)
  qed (simp_all del: SerializeJSONProperty.simps)
qed

text \<open>
  The first visit records the object under id 0 and goes on to its fields with that
  registry; the id is still 0 when a field that refers to the object is reached, and the
  field is written as the marker, without a visit of the object.
\<close>

lemma own_properties_slots: "own_properties (PlainObject props) = property_slots props"
  by (simp add: property_slots_def)

lemma property_slots_simps [simp]:
  "property_slots [] = []"
  "property_slots ((P, v) # ps) = Property P (Held v) # property_slots ps"
  "property_slots (ps @ qs) = property_slots ps @ property_slots qs"
  by (simp_all add: property_slots_def)

lemma first_visit:
  assumes "deref h a = PlainObject props" "GetV_toJSON h (Held (JRef a)) = None"
  shows "visit h b [] (Held (JRef a)) \<lparr>seen = [], world = w\<rparr> =
           Done (Nested ObjectShape [a] (property_slots props))
                \<lparr>seen = [(ObjId a, 0)], world = w\<rparr>"
  using assms
  by (simp add: visit_def call_toJSON_def replacer_def seen_size_def property_slots_def)

lemma self_reference_run:
  assumes d: "deref h a = PlainObject (before @ (P, JRef a) # after)"
    and m: "GetV_toJSON h (Held (JRef a)) = None"
  shows \<open>toJSON_run (Suc (Suc n)) h (JRef a) invokeFns w =
     (case SerializeJSONSlots (Suc n) h invokeFns [a] (property_slots before)
             \<lparr>seen = [(ObjId a, 0)], world = w\<rparr> of
        Done parts1 st1 \<Rightarrow>
          (case SerializeJSONSlots (Suc n) h invokeFns [a] (property_slots after) st1 of
             Done parts2 st2 \<Rightarrow>
               Done (Some (object_text
                  (parts1 @ [QuoteJSONString P @ '':"[[ cyclic ref *0 ]]"''] @ parts2))) st2
           | Failed e w' \<Rightarrow> Failed e w'
           | OutOfFuel \<Rightarrow> OutOfFuel)
      | Failed e w' \<Rightarrow> Failed e w'
      | OutOfFuel \<Rightarrow> OutOfFuel)\<close>
proof -
  let ?st0 = "\<lparr>seen = [(ObjId a, 0)], world = w\<rparr>"
  let ?before = "property_slots before"
  let ?after = "property_slots after"
  have t: "typeof h (Held (JRef a)) = TypeofObject OtherObject"
    using d by simp
  have run: "toJSON_run (Suc (Suc n)) h (JRef a) invokeFns w =
      finish ObjectShape (SerializeJSONSlots (Suc n) h invokeFns [a]
        (?before @ Property P (Held (JRef a)) # ?after) ?st0)"
    using first_visit [OF d m, of invokeFns w]
    by (simp add: toJSON_run_def del: SerializeJSONSlots.simps)
  show ?thesis
  proof (cases "SerializeJSONSlots (Suc n) h invokeFns [a] ?before ?st0")
    case (Done parts1 st1)
    from serialize_safe(2) [of "[a]" ?st0 "Suc n" h invokeFns ?before] Done
    have "keeps (seen ?st0) (seen st1)" by simp
    then have "map_of (seen st1) (ObjId a) = Some 0" by (simp add: keeps_def)
    from recorded_object_is_marker [OF this t m, of n invokeFns "[a]"]
    have self: \<open>SerializeJSONProperty (Suc n) h invokeFns [a] (Held (JRef a)) st1 =
        Done (Some ''"[[ cyclic ref *0 ]]"'') st1\<close>
      by (simp add: decimal.simps)
    show ?thesis
      unfolding run slots_append Done
      by (cases "SerializeJSONSlots (Suc n) h invokeFns [a] ?after st1")
         (simp_all add: self del: SerializeJSONProperty.simps)
  qed (simp_all add: run slots_append)
qed

lemma flat_slot:
  assumes "self_or_primitive a v" "map_of (seen st) (ObjId a) = Some i"
    and "deref h a = PlainObject props" "GetV_toJSON h (Held (JRef a)) = None"
  shows "\<exists>out st'. SerializeJSONProperty (Suc n) h b stack (Held v) st = Done out st' \<and>
           world st' = world st \<and> map_of (seen st') (ObjId a) = Some i"
proof (cases v)
  case (JRef a')
  with assms(1) have "a' = a" by (simp add: self_or_primitive_def)
  with JRef assms(2-4) show ?thesis
    using recorded_object_is_marker [of st a i h OtherObject n b stack] by simp
next
  case (JNum x)
  with assms(2) show ?thesis
    by (cases x) (simp_all add: visit_def call_toJSON_def replacer_def)
qed (use assms(2) in \<open>auto simp: visit_def call_toJSON_def replacer_def update_conv' split: option.splits\<close>)

lemma flat_slots:
  assumes "deref h a = PlainObject props" "GetV_toJSON h (Held (JRef a)) = None"
  shows "\<forall>(Q, v) \<in> set ps. self_or_primitive a v \<Longrightarrow>
         map_of (seen st) (ObjId a) = Some i \<Longrightarrow>
         \<exists>parts st'. SerializeJSONSlots (Suc n) h b stack (property_slots ps) st =
             Done parts st' \<and>
           world st' = world st \<and> map_of (seen st') (ObjId a) = Some i"
proof (induction ps arbitrary: st)
  case Nil
  then show ?case by simp
next
  case (Cons x ps)
  obtain Q v where x: "x = (Q, v)" by (cases x)
  with Cons.prems(1) have "self_or_primitive a v" by simp
  from flat_slot [OF this Cons.prems(2) assms, of n b stack]
  obtain out st1 where 1: "SerializeJSONProperty (Suc n) h b stack (Held v) st = Done out st1"
    and w: "world st1 = world st" and s: "map_of (seen st1) (ObjId a) = Some i"
    by blast
  from Cons.prems(1) have "\<forall>(Q, v) \<in> set ps. self_or_primitive a v" by simp
  from Cons.IH [OF this s]
  obtain parts st' where
    "SerializeJSONSlots (Suc n) h b stack (property_slots ps) st1 = Done parts st'"
    and "world st' = world st1" and "map_of (seen st') (ObjId a) = Some i"
    by blast
  with 1 w x show ?case by (simp del: SerializeJSONProperty.simps)
qed

text \<open>
  C6, as stated: for an object \<^verbatim>\<open>a\<close> with a field that refers to \<^verbatim>\<open>a\<close>, the field is
  written as \<^verbatim>\<open>"[[ cyclic ref *0 ]]"\<close>. When \<^verbatim>\<open>a\<close> has a \<^verbatim>\<open>toJSON\<close> method,
  \<^verbatim>\<open>JSON.stringify\<close> calls it before the replacer sees \<^verbatim>\<open>a\<close>: for
  \<^verbatim>\<open>a.self = a; a.toJSON = () => 5\<close> the text is \<^verbatim>\<open>5\<close>, and no field is written.
\<close>

theorem self_reference_with_toJSON_method:
  "toJSON 1 self_cycle_with_method (JRef 0) False () = Returns (Some ''5'') ()"
  by (simp add: self_cycle_with_method_def run_defs)

text \<open>
  C6, amended. For a plain object \<^verbatim>\<open>a\<close> without a \<^verbatim>\<open>toJSON\<close> method: \<^verbatim>\<open>a\<close> is the
  first composite visited and is recorded under id 0 before its fields are visited; a
  field that refers to \<^verbatim>\<open>a\<close>, whatever its name and its place among the fields, is
  written as \<^verbatim>\<open>"[[ cyclic ref *0 ]]"\<close> and costs no further visit; the call returns
  exactly when the traversals of the fields before and after it do (the functions invoked
  there, if any, leaving the graph as it is), with the text made of theirs and this
  member, and so it returns whenever the other fields of \<^verbatim>\<open>a\<close> are primitives or refer
  to \<^verbatim>\<open>a\<close>.
\<close>

theorem self_reference_encoding:
  assumes "deref h a = PlainObject (before @ (P, JRef a) # after)"
    and "GetV_toJSON h (Held (JRef a)) = None"
  shows \<open>toJSON_run (Suc (Suc n)) h (JRef a) invokeFns w =
     (case SerializeJSONSlots (Suc n) h invokeFns [a] (property_slots before)
             \<lparr>seen = [(ObjId a, 0)], world = w\<rparr> of
        Done parts1 st1 \<Rightarrow>
          (case SerializeJSONSlots (Suc n) h invokeFns [a] (property_slots after) st1 of
             Done parts2 st2 \<Rightarrow>
               Done (Some (object_text
                  (parts1 @ [QuoteJSONString P @ '':"[[ cyclic ref *0 ]]"''] @ parts2))) st2
           | Failed e w' \<Rightarrow> Failed e w'
           | OutOfFuel \<Rightarrow> OutOfFuel)
      | Failed e w' \<Rightarrow> Failed e w'
      | OutOfFuel \<Rightarrow> OutOfFuel) \<and>
   ((\<forall>(Q, v) \<in> set (before @ after). self_or_primitive a v) \<longrightarrow>
      (\<exists>text. toJSON (Suc (Suc n)) h (JRef a) invokeFns w = Returns (Some text) w))\<close>
proof (intro conjI impI)
  assume flat: "\<forall>(Q, v) \<in> set (before @ after). self_or_primitive a v"
  let ?st0 = "\<lparr>seen = [(ObjId a, 0)], world = w\<rparr>"
  from flat have "\<forall>(Q, v) \<in> set before. self_or_primitive a v" by simp
  from flat_slots [OF assms this, of ?st0 0 n invokeFns "[a]"]
  obtain parts1 st1 where 1:
    "SerializeJSONSlots (Suc n) h invokeFns [a] (property_slots before) ?st0 =
       Done parts1 st1"
    and w1: "world st1 = w" and s1: "map_of (seen st1) (ObjId a) = Some 0"
    by auto
  from flat have "\<forall>(Q, v) \<in> set after. self_or_primitive a v" by simp
  from flat_slots [OF assms this s1, of n invokeFns "[a]"]
  obtain parts2 st2 where 2:
    "SerializeJSONSlots (Suc n) h invokeFns [a] (property_slots after) st1 =
       Done parts2 st2"
    and w2: "world st2 = world st1"
    by auto
  from self_reference_run [OF assms, of n invokeFns w] 1 2 w1 w2
  show "\<exists>out. toJSON (Suc (Suc n)) h (JRef a) invokeFns w = Returns (Some out) w"
    by (simp add: toJSON_def)
qed (rule self_reference_run [OF assms])

theorem self_reference_encoding_witness:
  \<open>deref (self_cycle :: unit heap) 0 = PlainObject ([] @ (''self'', JRef 0) # []) \<and>
   GetV_toJSON (self_cycle :: unit heap) (Held (JRef 0)) = None \<and>
   toJSON_run (Suc (Suc 0)) self_cycle (JRef 0) False () =
     Done (Some ''{"self":"[[ cyclic ref *0 ]]"}'') \<lparr>seen = [(ObjId 0, 0)], world = ()\<rparr> \<and>
   toJSON (Suc (Suc 0)) self_cycle (JRef 0) False () =
     Returns (Some ''{"self":"[[ cyclic ref *0 ]]"}'') () \<and>
   deref (self_twice :: unit heap) 0 =
     PlainObject ([(''n'', number 1)] @ (''self'', JRef 0) # [(''t'', JStr ''x''), (''me'', JRef 0)]) \<and>
   GetV_toJSON (self_twice :: unit heap) (Held (JRef 0)) = None \<and>
   toJSON (Suc (Suc 0)) self_twice (JRef 0) False () =
     Returns (Some ''{"n":1,"self":"[[ cyclic ref *0 ]]","t":"x","me":"[[ cyclic ref *0 ]]"}'') ()\<close>
proof -
  have d: "deref (self_cycle :: unit heap) 0 = PlainObject ([] @ (''self'', JRef 0) # [])"
    by (simp add: self_cycle_def deref_def)
  have m: "GetV_toJSON (self_cycle :: unit heap) (Held (JRef 0)) = None"
    by (simp add: self_cycle_def deref_def)
  have d2: "deref (self_twice :: unit heap) 0 =
     PlainObject ([(''n'', number 1)] @ (''self'', JRef 0) # [(''t'', JStr ''x''), (''me'', JRef 0)])"
    by (simp add: self_twice_def deref_def)
  have m2: "GetV_toJSON (self_twice :: unit heap) (Held (JRef 0)) = None"
    by (simp add: self_twice_def deref_def)
  from self_reference_encoding [OF d m, of 0 False "()"]
       self_reference_encoding [OF d2 m2, of 0 False "()"] d m d2 m2
  show ?thesis
    by (simp add: self_cycle_def self_twice_def run_defs)
qed

section \<open>Every value has a text\<close>

































text \<open>A function that returns itself is invoked again and again when the flag is set:
  for \<^verbatim>\<open>const f = () => f\<close> the call has no result, whatever the fuel.\<close>

lemma self_returning_function_unfold:
  "SerializeJSONProperty n self_returning_function True stack (Held (JRef 0)) st = OutOfFuel"
proof (induction n arbitrary: st)
  case 0
  show ?case by simp
next
  case (Suc n)
  have "SerializeJSONProperty (Suc n) self_returning_function True stack (Held (JRef 0)) st =
      finish ObjectShape (SerializeJSONSlots n self_returning_function True stack
        [Property ''kind'' (Held (JStr ''Function'')), Property ''result'' (Held (JRef 0))] st)"
    by (simp add: self_returning_function_def visit_def call_toJSON_def replacer_def deref_def)
  also have "\<dots> = OutOfFuel"
    using string_slot [of n self_returning_function True stack "''Function''" st] Suc.IH
    by auto
  finally show ?case .
qed

lemma toJSON_self_returning_function_diverges:
  "toJSON n self_returning_function (JRef 0) True w = Diverges"
  by (simp add: toJSON_def toJSON_run_def self_returning_function_unfold)





end
